theory Spec2Isabelle
  imports Complex_Main "HOL-Library.Sublist"
begin

section \<open>Parsed JSON and the Python operations the data feed applies to it\<close>

text \<open>
  Both entry points of \<^verbatim>\<open>ClawBotDataFeed\<close> work on values produced by a JSON parser
  (\<^verbatim>\<open>resp.json()\<close>, \<^verbatim>\<open>json.loads(message)\<close>), so the input type of the model is the
  type of parsed JSON values. An object is the item list of the parsed dict, looked up
  with \<open>map_of\<close>.

  A number is an int or a float. An int and a finite float are the rational they equal;
  the floats \<^verbatim>\<open>inf\<close>, \<^verbatim>\<open>-inf\<close> and \<^verbatim>\<open>nan\<close> are values of their own. The parser
  gives \<^verbatim>\<open>inf\<close> for a literal beyond the range of a double, such as \<^verbatim>\<open>1e400\<close>, and it
  accepts the literals \<^verbatim>\<open>Infinity\<close>, \<^verbatim>\<open>-Infinity\<close> and \<^verbatim>\<open>NaN\<close>. Arithmetic on finite
  values is exact here: the rounding of a float result, the overflow of a finite result
  to \<^verbatim>\<open>inf\<close> and the OverflowError of an int beyond the range of a double (in a
  subtraction from a float and in the format of the log line) are not modelled. The
  finite inputs used below are dyadic fractions, on which float arithmetic is exact.
\<close>

datatype pynum = Num rat | PosInf | NegInf | NaN

text \<open>\<^verbatim>\<open>a < b\<close> on numbers: every comparison with \<^verbatim>\<open>nan\<close> is false.\<close>

fun num_lt :: "pynum \<Rightarrow> pynum \<Rightarrow> bool" where
  "num_lt (Num a) (Num b) = (a < b)"
| "num_lt (Num a) PosInf = True"
| "num_lt NegInf (Num b) = True"
| "num_lt NegInf PosInf = True"
| "num_lt a b = False"

text \<open>\<^verbatim>\<open>a == b\<close> and \<^verbatim>\<open>a <= b\<close> on numbers.\<close>

definition num_eq :: "pynum \<Rightarrow> pynum \<Rightarrow> bool" where
  "num_eq a b = (a \<noteq> NaN \<and> a = b)"

definition num_le :: "pynum \<Rightarrow> pynum \<Rightarrow> bool" where
  "num_le a b = (num_lt a b \<or> num_eq a b)"

text \<open>\<^verbatim>\<open>a - b\<close> on numbers: \<^verbatim>\<open>nan\<close> if an operand is, and \<^verbatim>\<open>inf - inf\<close> is \<^verbatim>\<open>nan\<close>.\<close>

fun num_sub :: "pynum \<Rightarrow> pynum \<Rightarrow> pynum" where
  "num_sub (Num a) (Num b) = Num (a - b)"
| "num_sub (Num a) PosInf = NegInf"
| "num_sub (Num a) NegInf = PosInf"
| "num_sub PosInf (Num b) = PosInf"
| "num_sub PosInf NegInf = PosInf"
| "num_sub NegInf (Num b) = NegInf"
| "num_sub NegInf PosInf = NegInf"
| "num_sub a b = NaN"

text \<open>\<^verbatim>\<open>abs(a)\<close> on numbers.\<close>

fun num_abs :: "pynum \<Rightarrow> pynum" where
  "num_abs (Num a) = Num \<bar>a\<bar>"
| "num_abs PosInf = PosInf"
| "num_abs NegInf = PosInf"
| "num_abs NaN = NaN"

datatype json =
    JNull
  | JBool bool
  | JNum pynum
  | JStr string
  | JArr "json list"
  | JObj "(string \<times> json) list"

text \<open>The exceptions the two methods can raise while they inspect a parsed value.\<close>

datatype error = AttributeError | KeyError | IndexError | TypeError | ValueError

type_synonym 'a result = "error + 'a"

definition and_then :: "'a result \<Rightarrow> ('a \<Rightarrow> 'b result) \<Rightarrow> 'b result" where
  "and_then r f = (case r of Inl e \<Rightarrow> Inl e | Inr x \<Rightarrow> f x)"

text \<open>\<^verbatim>\<open>v.get(k, default)\<close>: only a dict has the method.\<close>

definition dict_get :: "json \<Rightarrow> string \<Rightarrow> json \<Rightarrow> json result" where
  "dict_get v k dflt =
     (case v of
        JObj kvs \<Rightarrow> Inr (case map_of kvs k of Some x \<Rightarrow> x | None \<Rightarrow> dflt)
      | _ \<Rightarrow> Inl AttributeError)"

text \<open>\<^verbatim>\<open>v[k]\<close> with a string key: a missing key of a dict raises KeyError, a list or a
  string wants an integer index, the other values are not subscriptable.\<close>

definition getitem_str :: "json \<Rightarrow> string \<Rightarrow> json result" where
  "getitem_str v k =
     (case v of
        JObj kvs \<Rightarrow> (case map_of kvs k of Some x \<Rightarrow> Inr x | None \<Rightarrow> Inl KeyError)
      | _ \<Rightarrow> Inl TypeError)"

text \<open>\<^verbatim>\<open>v[i]\<close> with the index literals 0 and 1 of the source: a list or a string raises
  IndexError out of range, a dict has string keys only, so the integer is a missing key.\<close>

definition getitem_idx :: "json \<Rightarrow> nat \<Rightarrow> json result" where
  "getitem_idx v i =
     (case v of
        JArr xs \<Rightarrow> (if i < length xs then Inr (xs ! i) else Inl IndexError)
      | JStr s \<Rightarrow> (if i < length s then Inr (JStr [s ! i]) else Inl IndexError)
      | JObj kvs \<Rightarrow> Inl KeyError
      | _ \<Rightarrow> Inl TypeError)"

text \<open>The numeric reading of a value: a bool is the int 0 or 1 in Python.\<close>

definition num_of :: "json \<Rightarrow> pynum option" where
  "num_of v =
     (case v of
        JNum r \<Rightarrow> Some r
      | JBool b \<Rightarrow> Some (Num (if b then 1 else 0))
      | _ \<Rightarrow> None)"

text \<open>\<^verbatim>\<open>v > c\<close> for a number \<open>c\<close>: ordering a non-number against an int raises.\<close>

definition py_gt :: "json \<Rightarrow> rat \<Rightarrow> bool result" where
  "py_gt v c = (case num_of v of Some r \<Rightarrow> Inr (num_lt (Num c) r) | None \<Rightarrow> Inl TypeError)"

text \<open>\<^verbatim>\<open>abs(a - b)\<close>: subtraction is defined between numbers only.\<close>

definition py_abs_diff :: "json \<Rightarrow> json \<Rightarrow> pynum result" where
  "py_abs_diff a b =
     (case num_of a of
        None \<Rightarrow> Inl TypeError
      | Some x \<Rightarrow>
          (case num_of b of
             None \<Rightarrow> Inl TypeError
           | Some y \<Rightarrow> Inr (num_abs (num_sub x y))))"

text \<open>\<^verbatim>\<open>for m in v\<close>: a list yields its elements, a dict its keys, a string its
  characters; the other values are not iterable.\<close>

definition py_iter :: "json \<Rightarrow> json list result" where
  "py_iter v =
     (case v of
        JArr xs \<Rightarrow> Inr xs
      | JObj kvs \<Rightarrow> Inr (map (\<lambda>kv. JStr (fst kv)) kvs)
      | JStr s \<Rightarrow> Inr (map (\<lambda>c. JStr [c]) s)
      | _ \<Rightarrow> Inl TypeError)"

text \<open>The f-string \<^verbatim>\<open>{v:.3f}\<close> of the log line: the format is defined for numbers; a
  string raises ValueError, the other values TypeError.\<close>

definition format_3f :: "json \<Rightarrow> error option" where
  "format_3f v =
     (case v of
        JNum r \<Rightarrow> None
      | JBool b \<Rightarrow> None
      | JStr s \<Rightarrow> Some ValueError
      | _ \<Rightarrow> Some TypeError)"

section \<open>The market store\<close>

text \<open>
  The dataclass of the source. Python does not enforce the annotations, so a field holds
  whatever the JSON held; only \<open>spread\<close> is always a number, being the result of
  \<^verbatim>\<open>abs\<close>.
\<close>

record MarketSnapshot =
  market_id :: json
  yes_price :: json
  no_price :: json
  spread :: pynum
  volume_usd :: json
  category :: json

text \<open>
  Dict keys: a list or a dict is unhashable, and \<^verbatim>\<open>True == 1\<close>, \<^verbatim>\<open>False == 0\<close> are
  the same key as the number. The parser gives the same float object for every literal
  \<^verbatim>\<open>NaN\<close> and a dict finds a key by identity before it compares, so \<^verbatim>\<open>nan\<close> from
  the parser is one key, like any other number.
\<close>

datatype key = KNone | KNum pynum | KStr string

definition key_of :: "json \<Rightarrow> key result" where
  "key_of v =
     (case v of
        JNull \<Rightarrow> Inr KNone
      | JBool b \<Rightarrow> Inr (KNum (Num (if b then 1 else 0)))
      | JNum r \<Rightarrow> Inr (KNum r)
      | JStr s \<Rightarrow> Inr (KStr s)
      | _ \<Rightarrow> Inl TypeError)"

text \<open>
  \<^verbatim>\<open>self.markets\<close> is a dict, which keeps insertion order; the order decides how
  \<^verbatim>\<open>sorted\<close> places entries of equal spread, so the store is an association list. Two
  keys of the store never share a \<^verbatim>\<open>MarketSnapshot\<close> object (each object is stored under
  its own \<^verbatim>\<open>market_id\<close>), so values stand for the objects.
\<close>

type_synonym store = "(key \<times> MarketSnapshot) list"

text \<open>\<^verbatim>\<open>d[k] = v\<close>: an existing key keeps its position, a new key goes last.\<close>

fun setitem :: "'k \<Rightarrow> 'v \<Rightarrow> ('k \<times> 'v) list \<Rightarrow> ('k \<times> 'v) list" where
  "setitem k v [] = [(k, v)]"
| "setitem k v ((k', v') # d) = (if k' = k then (k, v) # d else (k', v') # setitem k v d)"

text \<open>\<^verbatim>\<open>d.update(other)\<close>: the items of \<open>other\<close> are assigned in their order.\<close>

definition dict_update :: "('k \<times> 'v) list \<Rightarrow> ('k \<times> 'v) list \<Rightarrow> ('k \<times> 'v) list" where
  "dict_update d other = foldl (\<lambda>acc kv. setitem (fst kv) (snd kv) acc) d other"

section \<open>Snapshot ingestion: \<^verbatim>\<open>fetch_politics_markets\<close>\<close>

text \<open>The constructor call of lines 51 to 58; the keyword arguments are evaluated in
  the order they are written.\<close>

definition make_snapshot :: "json \<Rightarrow> MarketSnapshot result" where
  "make_snapshot m =
     and_then (getitem_str m ''id'') (\<lambda>mid.
     and_then (getitem_str m ''outcomes'') (\<lambda>outs.
     and_then (getitem_idx outs 0) (\<lambda>o0.
     and_then (getitem_str o0 ''price'') (\<lambda>yes.
     and_then (getitem_idx outs 1) (\<lambda>o1.
     and_then (getitem_str o1 ''price'') (\<lambda>no.
     and_then (py_abs_diff yes no) (\<lambda>spr.
     and_then (getitem_str m ''volume24h'') (\<lambda>vol.
     and_then (getitem_str m ''category'') (\<lambda>cat.
       Inr \<lparr>market_id = mid, yes_price = yes, no_price = no, spread = spr,
            volume_usd = vol, category = cat\<rparr>)))))))))"

text \<open>The volume test of line 50.\<close>

definition volume_filter :: "json \<Rightarrow> bool result" where
  "volume_filter m = and_then (dict_get m ''volume24h'' (JNum (Num 0))) (\<lambda>v. py_gt v 1000000)"

text \<open>The loop of lines 49 to 58, with the list \<^verbatim>\<open>markets\<close> as accumulator. An
  exception leaves the loop and the method.\<close>

fun collect :: "json list \<Rightarrow> MarketSnapshot list \<Rightarrow> MarketSnapshot list result" where
  "collect [] markets = Inr markets"
| "collect (m # ms) markets =
     (case volume_filter m of
        Inl e \<Rightarrow> Inl e
      | Inr False \<Rightarrow> collect ms markets
      | Inr True \<Rightarrow>
          (case make_snapshot m of
             Inl e \<Rightarrow> Inl e
           | Inr s \<Rightarrow> collect ms (markets @ [s])))"

text \<open>The dict comprehension of line 59, \<^verbatim>\<open>{m.market_id: m for m in markets}\<close>.\<close>

fun keyed :: "MarketSnapshot list \<Rightarrow> store \<Rightarrow> store result" where
  "keyed [] d = Inr d"
| "keyed (m # ms) d =
     (case key_of (market_id m) of
        Inl e \<Rightarrow> Inl e
      | Inr k \<Rightarrow> keyed ms (setitem k m d))"

text \<open>
  The method, from the parsed response on: it returns the list \<^verbatim>\<open>markets\<close> or raises,
  and leaves the new \<^verbatim>\<open>self.markets\<close>. The store is written once, by the
  \<^verbatim>\<open>update\<close> of line 59, after the loop and the comprehension; an exception before
  that leaves it as it was.
\<close>

definition fetch_politics_markets :: "store \<Rightarrow> json \<Rightarrow> MarketSnapshot list result \<times> store" where
  "fetch_politics_markets self_markets data =
     (case and_then (dict_get data ''markets'' (JArr [])) (\<lambda>v.
           and_then (py_iter v) (\<lambda>recs.
           and_then (collect recs []) (\<lambda>markets.
           and_then (keyed markets []) (\<lambda>d. Inr (markets, d))))) of
        Inl e \<Rightarrow> (Inl e, self_markets)
      | Inr (markets, d) \<Rightarrow> (Inr markets, dict_update self_markets d))"

section \<open>Stream updates: the message handler of \<^verbatim>\<open>connect_clob_ws\<close>\<close>

text \<open>Attribute assignment on the object stored under a key that is present.\<close>

definition set_yes_price :: "key \<Rightarrow> json \<Rightarrow> store \<Rightarrow> store" where
  "set_yes_price k v d = map (\<lambda>(k', s). (k', if k' = k then s\<lparr>yes_price := v\<rparr> else s)) d"

definition set_no_price :: "key \<Rightarrow> json \<Rightarrow> store \<Rightarrow> store" where
  "set_no_price k v d = map (\<lambda>(k', s). (k', if k' = k then s\<lparr>no_price := v\<rparr> else s)) d"

text \<open>
  The body of the \<^verbatim>\<open>async for\<close> loop, lines 74 to 80, from the parsed message on. It
  returns the store it leaves and the exception it raises, if any: the assignments are
  made one after the other, so an exception can leave a store that is already written.
  In an assignment the right-hand side is evaluated first.
\<close>

definition on_message :: "store \<Rightarrow> json \<Rightarrow> store \<times> error option" where
  "on_message self_markets data =
     (case dict_get data ''type'' JNull of
        Inl e \<Rightarrow> (self_markets, Some e)
      | Inr t \<Rightarrow>
          if t \<noteq> JStr ''orderbook_update'' then (self_markets, None)
          else (case and_then (getitem_str data ''market_id'') key_of of
             Inl e \<Rightarrow> (self_markets, Some e)
           | Inr k \<Rightarrow>
               if k \<notin> fst ` set self_markets then (self_markets, None)
               else (case getitem_str data ''yes_bid'' of
                  Inl e \<Rightarrow> (self_markets, Some e)
                | Inr yes \<Rightarrow>
                    let st1 = set_yes_price k yes self_markets in
                    (case getitem_str data ''no_ask'' of
                       Inl e \<Rightarrow> (st1, Some e)
                     | Inr no \<Rightarrow>
                         let st2 = set_no_price k no st1 in
                         (st2, format_3f yes)))))"

section \<open>Ranked query: \<^verbatim>\<open>get_top_mispricing\<close>\<close>

text \<open>\<^verbatim>\<open>xs[:n]\<close>: a negative bound counts from the end.\<close>

definition slice_to :: "int \<Rightarrow> 'a list \<Rightarrow> 'a list" where
  "slice_to n xs = (if 0 \<le> n then take (nat n) xs else take (nat (int (length xs) + n)) xs)"

text \<open>
  \<^verbatim>\<open>sorted(..., key=lambda m: m.spread, reverse=True)\<close>: Python's sort compares keys with
  \<^verbatim>\<open><\<close> only and is stable, and with \<^verbatim>\<open>reverse=True\<close> elements of equal key keep
  their original order. When no key is \<^verbatim>\<open>nan\<close>, \<^verbatim>\<open><\<close> is a total order and that list
  is determined; it is computed here by insertion from the right, an element passing
  the elements that are greater.

  With a \<^verbatim>\<open>nan\<close> key the comparisons are not an order: \<^verbatim>\<open>sorted\<close> does not raise and
  returns a permutation of its input, but which one depends on the sorting algorithm of
  the runtime, which is not in the source. The insertion below is a permutation too and
  need not be the same one, so every fact below about the order of the result is stated
  for keys without a \<^verbatim>\<open>nan\<close>.
\<close>

fun insort_desc :: "('a \<Rightarrow> pynum) \<Rightarrow> 'a \<Rightarrow> 'a list \<Rightarrow> 'a list" where
  "insort_desc f x [] = [x]"
| "insort_desc f x (y # ys) =
     (if num_lt (f x) (f y) then y # insort_desc f x ys else x # y # ys)"

definition sorted_reverse :: "('a \<Rightarrow> pynum) \<Rightarrow> 'a list \<Rightarrow> 'a list" where
  "sorted_reverse f xs = foldr (insort_desc f) xs []"

definition get_top_mispricing :: "store \<Rightarrow> int \<Rightarrow> MarketSnapshot list" where
  "get_top_mispricing self_markets top_n =
     slice_to top_n (sorted_reverse spread (map snd self_markets))"

section \<open>Runs of the feed\<close>

text \<open>
  The store starts empty (\<^verbatim>\<open>__init__\<close>) and is written by the two methods only. A run is
  the sequence of parsed responses and parsed messages the feed has handled.
\<close>

datatype event = Fetch json | Message json

definition step :: "store \<Rightarrow> event \<Rightarrow> store" where
  "step st ev =
     (case ev of
        Fetch data \<Rightarrow> snd (fetch_politics_markets st data)
      | Message data \<Rightarrow> fst (on_message st data))"

definition run :: "event list \<Rightarrow> store" where
  "run evs = foldl step [] evs"

section \<open>Properties of store entries\<close>

text \<open>The spread of an entry is the absolute difference of its two prices:
  \<^verbatim>\<open>spread == abs(yes_price - no_price)\<close>.\<close>

definition spread_consistent :: "MarketSnapshot \<Rightarrow> bool" where
  "spread_consistent s =
     (case num_of (yes_price s) of
        None \<Rightarrow> False
      | Some y \<Rightarrow>
          (case num_of (no_price s) of
             None \<Rightarrow> False
           | Some n \<Rightarrow> num_eq (spread s) (num_abs (num_sub y n))))"

text \<open>A price is a probability: \<^verbatim>\<open>0 <= v <= 1\<close>.\<close>

definition in_unit :: "json \<Rightarrow> bool" where
  "in_unit v =
     (case num_of v of None \<Rightarrow> False | Some r \<Rightarrow> num_le (Num 0) r \<and> num_le r (Num 1))"

text \<open>The volume of an entry is strictly above the threshold of line 50.\<close>

definition above_threshold :: "MarketSnapshot \<Rightarrow> bool" where
  "above_threshold s =
     (case num_of (volume_usd s) of None \<Rightarrow> False | Some v \<Rightarrow> num_lt (Num 1000000) v)"

text \<open>No entry of the store has the spread \<^verbatim>\<open>nan\<close>.\<close>

definition nan_free :: "store \<Rightarrow> bool" where
  "nan_free st = (\<forall>(k, s)\<in>set st. spread s \<noteq> NaN)"

text \<open>Every key of the store is the \<^verbatim>\<open>market_id\<close> of the entry stored under it.\<close>

definition coherent :: "store \<Rightarrow> bool" where
  "coherent st = (\<forall>(k, s)\<in>set st. key_of (market_id s) = Inr k)"

text \<open>The price a discovery record carries for its outcome \<open>i\<close>, read from the record
  itself: \<^verbatim>\<open>m["outcomes"][i]["price"]\<close>.\<close>

definition outcome_price :: "json \<Rightarrow> nat \<Rightarrow> json result" where
  "outcome_price m i =
     and_then (getitem_str m ''outcomes'') (\<lambda>outs.
     and_then (getitem_idx outs i) (\<lambda>out. getitem_str out ''price''))"

text \<open>A price field that is there is a probability.\<close>

definition price_ok :: "json result \<Rightarrow> bool" where
  "price_ok r = (case r of Inl e \<Rightarrow> True | Inr v \<Rightarrow> in_unit v)"

text \<open>
  The prices an event carries are probabilities. This is a condition on the input alone:
  for a discovery response, on the two outcome prices of every record of the batch; for a
  message, on its two price fields.
\<close>

definition prices_in_range :: "event \<Rightarrow> bool" where
  "prices_in_range ev =
     (case ev of
        Fetch data \<Rightarrow>
          (case and_then (dict_get data ''markets'' (JArr [])) py_iter of
             Inl e \<Rightarrow> True
           | Inr recs \<Rightarrow>
               \<forall>m\<in>set recs. price_ok (outcome_price m 0) \<and> price_ok (outcome_price m 1))
      | Message data \<Rightarrow>
          price_ok (getitem_str data ''yes_bid'') \<and> price_ok (getitem_str data ''no_ask''))"

text \<open>
  Modelled from the spec: \<^verbatim>\<open>last_updated\<close>, the "logical timestamp or monotonic sequence
  number, set on every mutation" of an entry. \<^verbatim>\<open>MarketSnapshot\<close> has no such field and
  no method of the source keeps one, so it is computed from the run: the number (from 1)
  of the last event that changed what the store holds under the key, 0 if none did.
\<close>

fun stamps :: "store \<Rightarrow> nat \<Rightarrow> event list \<Rightarrow> (key \<Rightarrow> nat) \<Rightarrow> key \<Rightarrow> nat" where
  "stamps st i [] f = f"
| "stamps st i (ev # evs) f =
     stamps (step st ev) (Suc i) evs
       (\<lambda>k. if map_of (step st ev) k = map_of st k then f k else Suc i)"

definition last_updated :: "event list \<Rightarrow> key \<Rightarrow> nat" where
  "last_updated evs k = stamps [] 0 evs (\<lambda>k. 0) k"

section \<open>Sample inputs\<close>

text \<open>A well-formed discovery record, a discovery response, an order book message, and
  the store entry a well-formed record gives.\<close>

definition discovery_record :: "string \<Rightarrow> rat \<Rightarrow> rat \<Rightarrow> rat \<Rightarrow> json" where
  "discovery_record i y n v =
     JObj [(''id'', JStr i),
           (''outcomes'',
              JArr [JObj [(''price'', JNum (Num y))], JObj [(''price'', JNum (Num n))]]),
           (''volume24h'', JNum (Num v)),
           (''category'', JStr ''politics'')]"

definition discovery_response :: "json list \<Rightarrow> json" where
  "discovery_response recs = JObj [(''markets'', JArr recs)]"

definition orderbook_update :: "string \<Rightarrow> rat \<Rightarrow> rat \<Rightarrow> json" where
  "orderbook_update i y n =
     JObj [(''type'', JStr ''orderbook_update''), (''market_id'', JStr i),
           (''yes_bid'', JNum (Num y)), (''no_ask'', JNum (Num n))]"

definition sample_snapshot :: "string \<Rightarrow> rat \<Rightarrow> rat \<Rightarrow> rat \<Rightarrow> rat \<Rightarrow> MarketSnapshot" where
  "sample_snapshot i y n sp v =
     \<lparr>market_id = JStr i, yes_price = JNum (Num y), no_price = JNum (Num n),
      spread = Num sp, volume_usd = JNum (Num v), category = JStr ''politics''\<rparr>"

section \<open>Facts about numbers and sorting\<close>

lemma num_lt_imp_neq: "num_lt a b \<Longrightarrow> a \<noteq> b"
  by (cases a; cases b) auto

lemma num_le_total: "a \<noteq> NaN \<Longrightarrow> b \<noteq> NaN \<Longrightarrow> \<not> num_lt a b \<Longrightarrow> num_le b a"
  by (cases a; cases b) (auto simp: num_le_def num_eq_def)

lemma num_le_trans: "num_le a b \<Longrightarrow> num_le b c \<Longrightarrow> num_le a c"
  by (cases a; cases b; cases c) (auto simp: num_le_def num_eq_def)

lemma num_abs_nonneg: "num_abs a = NaN \<or> num_le (Num 0) (num_abs a)"
  by (cases a) (auto simp: num_le_def num_eq_def)

lemma num_le_Num: "num_le (Num a) (Num b) = (a \<le> b)"
  by (auto simp: num_le_def num_eq_def)

lemma set_insort_desc: "set (insort_desc f x ys) = insert x (set ys)"
  by (induction ys) auto

lemma length_insort_desc: "length (insort_desc f x ys) = Suc (length ys)"
  by (induction ys) auto

lemma filter_insort_desc:
  "filter (\<lambda>s. f s = k) (insort_desc f x ys) = filter (\<lambda>s. f s = k) (x # ys)"
  by (induction ys) (auto dest: num_lt_imp_neq)

lemma sorted_insort_desc:
  assumes "sorted_wrt (\<lambda>a b. num_le (f b) (f a)) ys"
    and "f x \<noteq> NaN" and "\<forall>y\<in>set ys. f y \<noteq> NaN"
  shows "sorted_wrt (\<lambda>a b. num_le (f b) (f a)) (insort_desc f x ys)"
  using assms
proof (induction ys)
  case Nil
  then show ?case by simp
next
  case (Cons y ys)
  show ?case
  proof (cases "num_lt (f x) (f y)")
    case True
    then have "num_le (f x) (f y)"
      by (simp add: num_le_def)
    with True Cons show ?thesis
      by (auto simp: set_insort_desc)
  next
    case False
    with Cons.prems have xy: "num_le (f y) (f x)"
      by (intro num_le_total) simp_all
    have "num_le (f z) (f x)" if "z \<in> set ys" for z
    proof -
      from Cons.prems(1) that have "num_le (f z) (f y)" by simp
      then show ?thesis using xy by (rule num_le_trans)
    qed
    with False xy Cons.prems(1) show ?thesis by simp
  qed
qed

lemma set_sorted_reverse: "set (sorted_reverse f xs) = set xs"
  by (induction xs) (simp_all add: sorted_reverse_def set_insort_desc)

lemma length_sorted_reverse: "length (sorted_reverse f xs) = length xs"
  by (induction xs) (simp_all add: sorted_reverse_def length_insort_desc)

lemma sorted_reverse_descending:
  "\<forall>x\<in>set xs. f x \<noteq> NaN \<Longrightarrow> sorted_wrt (\<lambda>a b. num_le (f b) (f a)) (sorted_reverse f xs)"
proof (induction xs)
  case Nil
  show ?case by (simp add: sorted_reverse_def)
next
  case (Cons x xs)
  then have "sorted_wrt (\<lambda>a b. num_le (f b) (f a)) (insort_desc f x (sorted_reverse f xs))"
    by (intro sorted_insort_desc) (simp_all add: set_sorted_reverse)
  then show ?case by (simp add: sorted_reverse_def)
qed

lemma sorted_reverse_stable:
  "filter (\<lambda>s. f s = k) (sorted_reverse f xs) = filter (\<lambda>s. f s = k) xs"
proof (induction xs)
  case Nil
  show ?case by (simp add: sorted_reverse_def)
next
  case (Cons x xs)
  have "filter (\<lambda>s. f s = k) (sorted_reverse f (x # xs)) =
          filter (\<lambda>s. f s = k) (insort_desc f x (sorted_reverse f xs))"
    by (simp add: sorted_reverse_def)
  also have "\<dots> = filter (\<lambda>s. f s = k) (x # sorted_reverse f xs)"
    by (rule filter_insort_desc)
  finally show ?case by (simp add: Cons.IH)
qed

lemma get_top_mispricing_take:
  "\<exists>j. get_top_mispricing st n = take j (sorted_reverse spread (map snd st))"
  by (auto simp: get_top_mispricing_def slice_to_def)

section \<open>Facts about dicts\<close>

lemma and_then_Inr_iff: "and_then r f = Inr y \<longleftrightarrow> (\<exists>x. r = Inr x \<and> f x = Inr y)"
  by (cases r) (simp_all add: and_then_def)

lemma map_of_setitem: "map_of (setitem k v d) = (map_of d)(k \<mapsto> v)"
  by (induction k v d rule: setitem.induct) (auto simp: fun_eq_iff)

lemma keys_setitem: "fst ` set (setitem k v d) = insert k (fst ` set d)"
  by (induction k v d rule: setitem.induct) auto

lemma set_setitem: "set (setitem k v d) \<subseteq> insert (k, v) (set d)"
  by (induction k v d rule: setitem.induct) auto

lemma distinct_setitem: "distinct (map fst d) \<Longrightarrow> distinct (map fst (setitem k v d))"
proof (induction d)
  case Nil
  show ?case by simp
next
  case (Cons p d)
  obtain k' v' where p: "p = (k', v')" by (cases p)
  from Cons have "k' \<notin> fst ` set d" and "distinct (map fst (setitem k v d))"
    by (simp_all add: p)
  then show ?case using Cons.prems keys_setitem [of k v d]
    by (auto simp: p)
qed

lemma setitem_same: "map_of d k = Some v \<Longrightarrow> setitem k v d = d"
  by (induction k v d rule: setitem.induct) (auto split: if_splits)

lemma set_dict_update: "set (dict_update d other) \<subseteq> set d \<union> set other"
proof (induction other arbitrary: d)
  case Nil
  show ?case by (simp add: dict_update_def)
next
  case (Cons kv other)
  have "set (dict_update (setitem (fst kv) (snd kv) d) other)
          \<subseteq> set (setitem (fst kv) (snd kv) d) \<union> set other"
    by (rule Cons.IH)
  also have "\<dots> \<subseteq> insert kv (set d) \<union> set other"
    using set_setitem [of "fst kv" "snd kv" d] by auto
  finally show ?case by (auto simp: dict_update_def)
qed

lemma map_of_dict_update:
  "distinct (map fst other) \<Longrightarrow> map_of (dict_update d other) = map_of d ++ map_of other"
proof (induction other arbitrary: d)
  case Nil
  show ?case by (simp add: dict_update_def)
next
  case (Cons kv other)
  obtain k v where kv: "kv = (k, v)" by (cases kv)
  from Cons.prems have fresh: "k \<notin> fst ` set other" and dist: "distinct (map fst other)"
    by (simp_all add: kv)
  have "map_of (dict_update d (kv # other)) = map_of (dict_update (setitem k v d) other)"
    by (simp add: dict_update_def kv)
  also have "\<dots> = (map_of d)(k \<mapsto> v) ++ map_of other"
    by (simp only: Cons.IH [OF dist] map_of_setitem)
  also have "\<dots> = map_of d ++ map_of (kv # other)"
  proof -
    have "map_of other k = None"
      using fresh by (simp add: map_of_eq_None_iff)
    then show ?thesis
      by (auto simp: kv fun_eq_iff map_add_def split: option.splits)
  qed
  finally show ?case .
qed

lemma dict_update_absorb:
  "\<forall>kv\<in>set other. map_of d (fst kv) = Some (snd kv) \<Longrightarrow> dict_update d other = d"
  by (induction other) (simp_all add: dict_update_def setitem_same)

lemma dict_update_idem:
  assumes "distinct (map fst other)"
  shows "dict_update (dict_update d other) other = dict_update d other"
proof (rule dict_update_absorb, rule ballI)
  fix kv assume "kv \<in> set other"
  then have "(fst kv, snd kv) \<in> set other"
    by simp
  then have "map_of other (fst kv) = Some (snd kv)"
    by (rule map_of_is_SomeI [OF assms])
  then show "map_of (dict_update d other) (fst kv) = Some (snd kv)"
    by (simp add: map_of_dict_update [OF assms])
qed

lemma keys_dict_update: "fst ` set (dict_update d other) = fst ` set d \<union> fst ` set other"
proof (induction other arbitrary: d)
  case Nil
  show ?case by (simp add: dict_update_def)
next
  case (Cons kv other)
  have "dict_update d (kv # other) = dict_update (setitem (fst kv) (snd kv) d) other"
    by (simp add: dict_update_def)
  then show ?case by (auto simp: Cons.IH keys_setitem)
qed

section \<open>Facts about snapshot ingestion\<close>

lemma make_snapshot_fields:
  assumes "make_snapshot m = Inr s"
  shows "getitem_str m ''id'' = Inr (market_id s)"
    and "py_abs_diff (yes_price s) (no_price s) = Inr (spread s)"
    and "getitem_str m ''volume24h'' = Inr (volume_usd s)"
    and "getitem_str m ''category'' = Inr (category s)"
  using assms by (auto simp: make_snapshot_def and_then_Inr_iff)

lemma make_snapshot_prices:
  assumes "make_snapshot m = Inr s"
  shows "\<exists>outs o0 o1. getitem_str m ''outcomes'' = Inr outs
           \<and> getitem_idx outs 0 = Inr o0 \<and> getitem_str o0 ''price'' = Inr (yes_price s)
           \<and> getitem_idx outs 1 = Inr o1 \<and> getitem_str o1 ''price'' = Inr (no_price s)"
  using assms by (auto simp: make_snapshot_def and_then_Inr_iff)

lemma py_abs_diff_Inr:
  "py_abs_diff a b = Inr r \<Longrightarrow>
     \<exists>x y. num_of a = Some x \<and> num_of b = Some y \<and> r = num_abs (num_sub x y)"
  by (auto simp: py_abs_diff_def split: option.splits)

lemma make_snapshot_spread_nonneg:
  assumes "make_snapshot m = Inr s"
  shows "spread s = NaN \<or> num_le (Num 0) (spread s)"
proof -
  from py_abs_diff_Inr [OF make_snapshot_fields(2) [OF assms]]
  obtain x y where "spread s = num_abs (num_sub x y)" by blast
  with num_abs_nonneg [of "num_sub x y"] show ?thesis by simp
qed

lemma in_unit_finite:
  "in_unit v \<Longrightarrow> \<exists>r. num_of v = Some (Num r) \<and> 0 \<le> r \<and> r \<le> 1"
  by (cases "num_of v"; cases "the (num_of v)")
     (auto simp: in_unit_def num_le_def num_eq_def)

lemma make_snapshot_outcome_prices:
  assumes "make_snapshot m = Inr s"
  shows "outcome_price m 0 = Inr (yes_price s)" and "outcome_price m 1 = Inr (no_price s)"
  using make_snapshot_prices [OF assms] by (auto simp: outcome_price_def and_then_def)

lemma make_snapshot_spread_in_range:
  assumes "make_snapshot m = Inr s" and "in_unit (yes_price s)" and "in_unit (no_price s)"
  shows "num_le (Num 0) (spread s)"
proof -
  from py_abs_diff_Inr [OF make_snapshot_fields(2) [OF assms(1)]]
  obtain x y where xy: "num_of (yes_price s) = Some x" "num_of (no_price s) = Some y"
      "spread s = num_abs (num_sub x y)"
    by blast
  from in_unit_finite [OF assms(2)] in_unit_finite [OF assms(3)] xy(1,2)
  obtain a b where "x = Num a" "y = Num b" by auto
  with xy(3) show ?thesis by (simp add: num_le_Num)
qed

lemma collect_sound:
  "collect recs acc = Inr markets \<Longrightarrow> s \<in> set markets \<Longrightarrow>
     s \<in> set acc \<or> (\<exists>m\<in>set recs. volume_filter m = Inr True \<and> make_snapshot m = Inr s)"
proof (induction recs acc rule: collect.induct)
  case (1 acc)
  then show ?case by simp
next
  case (2 m ms acc)
  then show ?case
    by (auto split: sum.splits bool.splits)
qed

lemma collect_skip:
  "volume_filter m = Inr False \<Longrightarrow> collect (pre @ m # post) acc = collect (pre @ post) acc"
  by (induction pre acc rule: collect.induct) (simp_all split: sum.splits bool.splits)


lemma keyed_sound:
  "keyed ms d0 = Inr d \<Longrightarrow> (k, s) \<in> set d \<Longrightarrow>
     (k, s) \<in> set d0 \<or> (s \<in> set ms \<and> key_of (market_id s) = Inr k)"
proof (induction ms d0 rule: keyed.induct)
  case (1 d0)
  then show ?case by simp
next
  case (2 m ms d0)
  then show ?case
    using set_setitem by (fastforce split: sum.splits)
qed

lemma keyed_distinct:
  "keyed ms d0 = Inr d \<Longrightarrow> distinct (map fst d0) \<Longrightarrow> distinct (map fst d)"
  by (induction ms d0 rule: keyed.induct) (auto split: sum.splits simp: distinct_setitem)

lemma fetch_cases:
  obtains (raised) e where "fetch_politics_markets st data = (Inl e, st)"
  | (returned) v recs markets d where
      "dict_get data ''markets'' (JArr []) = Inr v" "py_iter v = Inr recs"
      "collect recs [] = Inr markets" "keyed markets [] = Inr d"
      "fetch_politics_markets st data = (Inr markets, dict_update st d)"
proof (cases "and_then (dict_get data ''markets'' (JArr [])) (\<lambda>v.
           and_then (py_iter v) (\<lambda>recs.
           and_then (collect recs []) (\<lambda>markets.
           and_then (keyed markets []) (\<lambda>d. Inr (markets, d)))))")
  case (Inl e)
  then have "fetch_politics_markets st data = (Inl e, st)"
    by (simp add: fetch_politics_markets_def)
  then show ?thesis by (rule raised)
next
  case (Inr r)
  obtain markets d where r: "r = (markets, d)" by (cases r)
  from Inr obtain v recs where
      "dict_get data ''markets'' (JArr []) = Inr v" "py_iter v = Inr recs"
      "collect recs [] = Inr markets" "keyed markets [] = Inr d"
    by (auto simp: and_then_Inr_iff r)
  moreover from Inr have "fetch_politics_markets st data = (Inr markets, dict_update st d)"
    by (simp add: fetch_politics_markets_def r)
  ultimately show ?thesis by (rule returned)
qed

lemma fetch_returned_independent:
  "fst (fetch_politics_markets st data) = fst (fetch_politics_markets st' data)"
  by (simp add: fetch_politics_markets_def split: sum.splits prod.splits)

lemma fetch_returned_sound:
  assumes "fetch_politics_markets st data = (Inr markets, st')" and "s \<in> set markets"
  shows "\<exists>recs m. and_then (dict_get data ''markets'' (JArr [])) py_iter = Inr recs
           \<and> m \<in> set recs \<and> volume_filter m = Inr True \<and> make_snapshot m = Inr s"
proof (cases rule: fetch_cases [where st = st and data = data])
  case (raised e)
  with assms show ?thesis by simp
next
  case (returned v recs ms d)
  with assms have "collect recs [] = Inr markets" by simp
  from collect_sound [OF this assms(2)] obtain m where
      "m \<in> set recs" "volume_filter m = Inr True" "make_snapshot m = Inr s"
    by auto
  moreover from returned(1,2)
  have "and_then (dict_get data ''markets'' (JArr [])) py_iter = Inr recs"
    by (simp add: and_then_def)
  ultimately show ?thesis by blast
qed

text \<open>Snapshot ingestion computes the spread of every record it returns from the
  prices of that record; the comparison \<^verbatim>\<open>==\<close> then holds unless the spread is
  \<^verbatim>\<open>nan\<close>.\<close>

lemma fetched_spread_consistent:
  assumes "fetch_politics_markets st data = (Inr markets, st')" and "s \<in> set markets"
  shows "spread s = NaN \<or> spread_consistent s"
proof -
  from fetch_returned_sound [OF assms] obtain m where "make_snapshot m = Inr s"
    by blast
  from py_abs_diff_Inr [OF make_snapshot_fields(2) [OF this]] show ?thesis
    by (auto simp: spread_consistent_def num_eq_def)
qed

lemma fetch_store_sound:
  assumes "fetch_politics_markets st data = (r, st')" and "(k, s) \<in> set st'"
  shows "(k, s) \<in> set st
       \<or> (\<exists>markets. r = Inr markets \<and> s \<in> set markets \<and> key_of (market_id s) = Inr k)"
proof (cases rule: fetch_cases [where st = st and data = data])
  case (raised e)
  with assms show ?thesis by simp
next
  case (returned v recs ms d)
  with assms have r: "r = Inr ms" and st': "st' = dict_update st d" by simp_all
  from assms(2) have "(k, s) \<in> set st \<or> (k, s) \<in> set d"
    using set_dict_update [of st d] by (auto simp: st')
  then show ?thesis
  proof
    assume "(k, s) \<in> set d"
    from keyed_sound [OF returned(4) this] show ?thesis by (simp add: r)
  qed simp
qed

section \<open>Facts about stream updates\<close>

lemma keys_set_yes_price: "map fst (set_yes_price k v d) = map fst d"
  by (induction d) (auto simp: set_yes_price_def)

lemma keys_set_no_price: "map fst (set_no_price k v d) = map fst d"
  by (induction d) (auto simp: set_no_price_def)

lemma on_message_cases:
  obtains (unchanged) err where "on_message st data = (st, err)"
  | (yes_only) k yes err where
      "and_then (getitem_str data ''market_id'') key_of = Inr k" "k \<in> fst ` set st"
      "getitem_str data ''yes_bid'' = Inr yes"
      "on_message st data = (set_yes_price k yes st, err)"
  | (both) k yes no err where
      "and_then (getitem_str data ''market_id'') key_of = Inr k" "k \<in> fst ` set st"
      "getitem_str data ''yes_bid'' = Inr yes" "getitem_str data ''no_ask'' = Inr no"
      "on_message st data = (set_no_price k no (set_yes_price k yes st), err)"
proof (cases "dict_get data ''type'' JNull")
  case (Inl e)
  then show ?thesis by (intro unchanged) (simp add: on_message_def)
next
  case t: (Inr t)
  show ?thesis
  proof (cases "t = JStr ''orderbook_update''")
    case False
    with t show ?thesis by (intro unchanged) (simp add: on_message_def)
  next
    case True
    show ?thesis
    proof (cases "and_then (getitem_str data ''market_id'') key_of")
      case (Inl e)
      with t True show ?thesis by (intro unchanged) (simp add: on_message_def)
    next
      case k: (Inr k)
      show ?thesis
      proof (cases "k \<in> fst ` set st")
        case False
        with t True k show ?thesis by (intro unchanged) (simp add: on_message_def)
      next
        case present: True
        show ?thesis
        proof (cases "getitem_str data ''yes_bid''")
          case (Inl e)
          with t True k present show ?thesis
            by (intro unchanged) (simp add: on_message_def)
        next
          case yes: (Inr yes)
          show ?thesis
          proof (cases "getitem_str data ''no_ask''")
            case (Inl e)
            with t True k present yes show ?thesis
              by (intro yes_only [of k yes]) (simp_all add: on_message_def)
          next
            case (Inr no)
            with t True k present yes show ?thesis
              by (intro both [of k yes no]) (simp_all add: on_message_def)
          qed
        qed
      qed
    qed
  qed
qed

section \<open>Facts about runs\<close>

lemma run_snoc: "run (evs @ [ev]) = step (run evs) ev"
  by (simp add: run_def)

lemma run_Nil: "run [] = []"
  by (simp add: run_def)

lemma run_invariant:
  assumes init: "I []"
    and pres: "\<And>st ev. ev \<in> set evs \<Longrightarrow> I st \<Longrightarrow> I (step st ev)"
  shows "I (run evs)"
  using pres
proof (induction evs rule: rev_induct)
  case Nil
  show ?case by (simp add: run_Nil init)
next
  case (snoc ev evs)
  have "I (run evs)"
    by (rule snoc.IH) (simp add: snoc.prems)
  then show ?case
    by (simp add: run_snoc snoc.prems)
qed

text \<open>What the handler does to the store: it may write the two price fields of the entry
  under the key the message names, and nothing else.\<close>

lemma on_message_shape:
  obtains g where
    "fst (on_message st data) =
       map (\<lambda>(k, s). (k, if and_then (getitem_str data ''market_id'') key_of = Inr k
                           then g s else s)) st"
    "\<And>s. \<exists>y n. g s = s\<lparr>yes_price := y, no_price := n\<rparr>
            \<and> (y = yes_price s \<or> getitem_str data ''yes_bid'' = Inr y)
            \<and> (n = no_price s \<or> getitem_str data ''no_ask'' = Inr n)"
proof (cases rule: on_message_cases [where st = st and data = data])
  case (unchanged err)
  show ?thesis
  proof (rule that [of "\<lambda>s. s"])
    show "fst (on_message st data) =
       map (\<lambda>(k, s). (k, if and_then (getitem_str data ''market_id'') key_of = Inr k
                           then s else s)) st"
      by (simp add: unchanged case_prod_unfold)
    show "\<exists>y n. s = s\<lparr>yes_price := y, no_price := n\<rparr>
            \<and> (y = yes_price s \<or> getitem_str data ''yes_bid'' = Inr y)
            \<and> (n = no_price s \<or> getitem_str data ''no_ask'' = Inr n)" for s :: MarketSnapshot
      by (intro exI [of _ "yes_price s"] exI [of _ "no_price s"]) simp
  qed
next
  case (yes_only k yes err)
  show ?thesis
  proof (rule that [of "\<lambda>s. s\<lparr>yes_price := yes\<rparr>"])
    show "fst (on_message st data) =
       map (\<lambda>(k, s). (k, if and_then (getitem_str data ''market_id'') key_of = Inr k
                           then s\<lparr>yes_price := yes\<rparr> else s)) st"
      by (auto simp: yes_only set_yes_price_def)
    show "\<exists>y n. s\<lparr>yes_price := yes\<rparr> = s\<lparr>yes_price := y, no_price := n\<rparr>
            \<and> (y = yes_price s \<or> getitem_str data ''yes_bid'' = Inr y)
            \<and> (n = no_price s \<or> getitem_str data ''no_ask'' = Inr n)" for s :: MarketSnapshot
      by (intro exI [of _ yes] exI [of _ "no_price s"]) (simp add: yes_only)
  qed
next
  case (both k yes no err)
  show ?thesis
  proof (rule that [of "\<lambda>s. s\<lparr>yes_price := yes, no_price := no\<rparr>"])
    show "fst (on_message st data) =
       map (\<lambda>(k, s). (k, if and_then (getitem_str data ''market_id'') key_of = Inr k
                           then s\<lparr>yes_price := yes, no_price := no\<rparr> else s)) st"
      by (auto simp: both set_yes_price_def set_no_price_def)
    show "\<exists>y n. s\<lparr>yes_price := yes, no_price := no\<rparr> = s\<lparr>yes_price := y, no_price := n\<rparr>
            \<and> (y = yes_price s \<or> getitem_str data ''yes_bid'' = Inr y)
            \<and> (n = no_price s \<or> getitem_str data ''no_ask'' = Inr n)" for s :: MarketSnapshot
      by (intro exI [of _ yes] exI [of _ no]) (simp add: both)
  qed
qed

lemma on_message_entry:
  assumes "(k, s') \<in> set (fst (on_message st data))"
  obtains s y n where "(k, s) \<in> set st" "s' = s\<lparr>yes_price := y, no_price := n\<rparr>"
    "y = yes_price s \<or> getitem_str data ''yes_bid'' = Inr y"
    "n = no_price s \<or> getitem_str data ''no_ask'' = Inr n"
proof -
  obtain g where shape: "fst (on_message st data) =
       map (\<lambda>(k, s). (k, if and_then (getitem_str data ''market_id'') key_of = Inr k
                           then g s else s)) st"
    and g: "\<And>s. \<exists>y n. g s = s\<lparr>yes_price := y, no_price := n\<rparr>
            \<and> (y = yes_price s \<or> getitem_str data ''yes_bid'' = Inr y)
            \<and> (n = no_price s \<or> getitem_str data ''no_ask'' = Inr n)"
    by (rule on_message_shape [where st = st and data = data]) blast
  from assms obtain s where s: "(k, s) \<in> set st"
    and s': "s' = (if and_then (getitem_str data ''market_id'') key_of = Inr k then g s else s)"
    by (auto simp: shape)
  show ?thesis
  proof (cases "and_then (getitem_str data ''market_id'') key_of = Inr k")
    case True
    with g [of s] s s' show ?thesis by (auto intro: that)
  next
    case False
    with s s' show ?thesis
      by (intro that [where s = s and y = "yes_price s" and n = "no_price s"]) simp_all
  qed
qed

lemma step_entry:
  assumes "(k, s') \<in> set (step st ev)"
  obtains (old) "(k, s') \<in> set st"
  | (fetched) data markets recs m where "ev = Fetch data"
      "fst (fetch_politics_markets st data) = Inr markets" "s' \<in> set markets"
      "key_of (market_id s') = Inr k"
      "and_then (dict_get data ''markets'' (JArr [])) py_iter = Inr recs" "m \<in> set recs"
      "volume_filter m = Inr True" "make_snapshot m = Inr s'"
  | (updated) data s y n where "ev = Message data" "(k, s) \<in> set st"
      "s' = s\<lparr>yes_price := y, no_price := n\<rparr>"
      "y = yes_price s \<or> getitem_str data ''yes_bid'' = Inr y"
      "n = no_price s \<or> getitem_str data ''no_ask'' = Inr n"
proof (cases ev)
  case (Fetch data)
  obtain r st' where f: "fetch_politics_markets st data = (r, st')"
    by (cases "fetch_politics_markets st data")
  with assms Fetch have "(k, s') \<in> set st'"
    by (simp add: step_def)
  from fetch_store_sound [OF f this] show ?thesis
  proof
    assume "(k, s') \<in> set st"
    then show ?thesis by (rule old)
  next
    assume "\<exists>markets. r = Inr markets \<and> s' \<in> set markets \<and> key_of (market_id s') = Inr k"
    then obtain markets where m: "r = Inr markets" "s' \<in> set markets"
        "key_of (market_id s') = Inr k"
      by blast
    from f m(1) have "fetch_politics_markets st data = (Inr markets, st')" by simp
    from fetch_returned_sound [OF this m(2)] obtain recs m' where
        "and_then (dict_get data ''markets'' (JArr [])) py_iter = Inr recs" "m' \<in> set recs"
        "volume_filter m' = Inr True" "make_snapshot m' = Inr s'"
      by blast
    with Fetch f m show ?thesis
      by (intro fetched [of data markets recs m']) simp_all
  qed
next
  case (Message data)
  with assms have "(k, s') \<in> set (fst (on_message st data))"
    by (simp add: step_def)
  then show ?thesis
    by (rule on_message_entry) (rule updated [OF Message])
qed

lemma spread_nonneg_step:
  assumes "\<forall>(k, s)\<in>set st. spread s = NaN \<or> num_le (Num 0) (spread s)"
  shows "\<forall>(k, s)\<in>set (step st ev). spread s = NaN \<or> num_le (Num 0) (spread s)"
proof (clarify)
  fix k s' assume "(k, s') \<in> set (step st ev)" and "\<not> num_le (Num 0) (spread s')"
  then show "spread s' = NaN"
  proof (cases rule: step_entry)
    case old
    with assms \<open>\<not> num_le (Num 0) (spread s')\<close> show ?thesis by auto
  next
    case (fetched data markets recs m)
    with make_snapshot_spread_nonneg [of m s'] \<open>\<not> num_le (Num 0) (spread s')\<close>
    show ?thesis by simp
  next
    case (updated data s y n)
    with assms \<open>\<not> num_le (Num 0) (spread s')\<close> show ?thesis by auto
  qed
qed

lemma prices_in_range_step:
  assumes inv: "\<forall>(k, s)\<in>set st. in_unit (yes_price s) \<and> in_unit (no_price s)
                  \<and> num_le (Num 0) (spread s)"
    and ev: "prices_in_range ev"
  shows "\<forall>(k, s)\<in>set (step st ev). in_unit (yes_price s) \<and> in_unit (no_price s)
           \<and> num_le (Num 0) (spread s)"
proof (clarify)
  fix k s' assume "(k, s') \<in> set (step st ev)"
  then show "in_unit (yes_price s') \<and> in_unit (no_price s') \<and> num_le (Num 0) (spread s')"
  proof (cases rule: step_entry)
    case old
    with inv show ?thesis by auto
  next
    case (fetched data markets recs m)
    from ev fetched(1,5,6)
    have "price_ok (outcome_price m 0)" and "price_ok (outcome_price m 1)"
      by (auto simp: prices_in_range_def)
    with make_snapshot_outcome_prices [OF fetched(8)]
    have "in_unit (yes_price s')" and "in_unit (no_price s')"
      by (simp_all add: price_ok_def)
    with make_snapshot_spread_in_range [OF fetched(8)] show ?thesis by simp
  next
    case (updated data s y n)
    from inv updated(2) have "in_unit (yes_price s)" "in_unit (no_price s)"
        "num_le (Num 0) (spread s)"
      by auto
    with ev updated(1,3,4,5) show ?thesis
      by (auto simp: prices_in_range_def price_ok_def)
  qed
qed

lemma coherent_step: "coherent st \<Longrightarrow> coherent (step st ev)"
  unfolding coherent_def
proof (clarify)
  fix k s' assume inv: "\<forall>(k, s)\<in>set st. key_of (market_id s) = Inr k"
    and "(k, s') \<in> set (step st ev)"
  from this(2) show "key_of (market_id s') = Inr k"
  proof (cases rule: step_entry)
    case old
    with inv show ?thesis by auto
  next
    case (fetched data markets m)
    then show ?thesis by simp
  next
    case (updated data s y n)
    with inv show ?thesis by auto
  qed
qed

section \<open>Evaluating the sample inputs\<close>

lemma update_target [simp]:
  "and_then (getitem_str (orderbook_update i y n) ''market_id'') key_of = Inr (KStr i)"
  by (simp add: orderbook_update_def getitem_str_def and_then_def key_of_def)

lemma on_message_orderbook_update:
  "on_message st (orderbook_update i y n) =
     (if KStr i \<in> fst ` set st
      then (set_no_price (KStr i) (JNum (Num n)) (set_yes_price (KStr i) (JNum (Num y)) st), None)
      else (st, None))"
  by (simp add: on_message_def orderbook_update_def dict_get_def getitem_str_def
        and_then_def key_of_def format_3f_def)

lemma set_prices_Cons:
  "set_no_price k n (set_yes_price k y ((k', s) # st)) =
     (k', if k' = k then s\<lparr>yes_price := y, no_price := n\<rparr> else s)
       # set_no_price k n (set_yes_price k y st)"
  by (simp add: set_no_price_def set_yes_price_def)

lemma set_prices_Nil: "set_no_price k n (set_yes_price k y []) = []"
  by (simp add: set_no_price_def set_yes_price_def)

lemma sample_snapshot_prices:
  "(sample_snapshot i y n sp v)\<lparr>yes_price := JNum (Num y'), no_price := JNum (Num n')\<rparr> =
     sample_snapshot i y' n' sp v"
  by (simp add: sample_snapshot_def)

lemma volume_filter_record [simp]:
  "volume_filter (discovery_record i y n v) = Inr (1000000 < v)"
  by (simp add: volume_filter_def discovery_record_def dict_get_def and_then_def py_gt_def
        num_of_def)

lemma make_snapshot_record [simp]:
  "make_snapshot (discovery_record i y n v) = Inr (sample_snapshot i y n \<bar>y - n\<bar> v)"
  by (simp add: make_snapshot_def discovery_record_def getitem_str_def getitem_idx_def
        and_then_def py_abs_diff_def num_of_def sample_snapshot_def)

lemma key_of_sample [simp]: "key_of (market_id (sample_snapshot i y n sp v)) = Inr (KStr i)"
  by (simp add: sample_snapshot_def key_of_def)

lemma fetch_response:
  "fetch_politics_markets st (discovery_response recs) =
     (case collect recs [] of
        Inl e \<Rightarrow> (Inl e, st)
      | Inr markets \<Rightarrow>
          (case keyed markets [] of
             Inl e \<Rightarrow> (Inl e, st)
           | Inr d \<Rightarrow> (Inr markets, dict_update st d)))"
  by (simp add: fetch_politics_markets_def discovery_response_def dict_get_def py_iter_def
        and_then_def split: sum.splits)

lemma step_simps:
  "step st (Fetch data) = snd (fetch_politics_markets st data)"
  "step st (Message data) = fst (on_message st data)"
  by (simp_all add: step_def)

lemma sample_snapshot_sel:
  "market_id (sample_snapshot i y n sp v) = JStr i"
  "yes_price (sample_snapshot i y n sp v) = JNum (Num y)"
  "no_price (sample_snapshot i y n sp v) = JNum (Num n)"
  "spread (sample_snapshot i y n sp v) = Num sp"
  "volume_usd (sample_snapshot i y n sp v) = JNum (Num v)"
  "category (sample_snapshot i y n sp v) = JStr ''politics''"
  by (simp_all add: sample_snapshot_def)

lemma sample_snapshot_eq:
  "sample_snapshot i y n sp v = sample_snapshot i' y' n' sp' v'
     \<longleftrightarrow> i = i' \<and> y = y' \<and> n = n' \<and> sp = sp' \<and> v = v'"
  by (auto simp: sample_snapshot_def)

lemma key_of_JStr: "key_of (JStr i) = Inr (KStr i)"
  by (simp add: key_of_def)

lemmas eval_run =
  run_def step_simps fetch_response key_of_JStr dict_update_def
  on_message_orderbook_update set_prices_Cons set_prices_Nil sample_snapshot_prices
  sample_snapshot_sel sample_snapshot_eq

lemma in_unit_JNum: "in_unit (JNum (Num r)) = (0 \<le> r \<and> r \<le> 1)"
  by (simp add: in_unit_def num_of_def num_le_Num)

lemma outcome_price_record:
  "outcome_price (discovery_record i y n v) 0 = Inr (JNum (Num y))"
  "outcome_price (discovery_record i y n v) (Suc 0) = Inr (JNum (Num n))"
  by (simp_all add: outcome_price_def discovery_record_def getitem_str_def getitem_idx_def
        and_then_def)

lemma prices_in_range_record:
  "prices_in_range (Fetch (discovery_response [discovery_record i y n v])) =
     (0 \<le> y \<and> y \<le> 1 \<and> 0 \<le> n \<and> n \<le> 1)"
  by (simp add: prices_in_range_def discovery_response_def dict_get_def py_iter_def
        and_then_def price_ok_def outcome_price_record in_unit_JNum)

lemma prices_in_range_update:
  "prices_in_range (Message (orderbook_update i y n)) = (0 \<le> y \<and> y \<le> 1 \<and> 0 \<le> n \<and> n \<le> 1)"
  by (simp add: prices_in_range_def orderbook_update_def getitem_str_def price_ok_def
        in_unit_JNum)

section \<open>The spread after a stream update\<close>

text \<open>
  C1. The claim is that every stored spread equals the absolute difference of the stored
  prices, also after a stream update. Snapshot ingestion computes it so
  (\<open>fetched_spread_consistent\<close>), but the handler of \<^verbatim>\<open>connect_clob_ws\<close> writes the two
  prices and leaves \<^verbatim>\<open>spread\<close> as it was: after \<open>B\<close> is ingested with the prices 1/2
  and 1/2 and updated to 1/4 and 3/4, the store holds the spread 0 for it, not 1/2.
\<close>

theorem stream_update_leaves_spread_stale:
  "run [Fetch (discovery_response [discovery_record ''B'' (1/2) (1/2) 2000000]),
        Message (orderbook_update ''B'' (1/4) (3/4))]
     = [(KStr ''B'', sample_snapshot ''B'' (1/4) (3/4) 0 2000000)]
   \<and> \<not> spread_consistent (sample_snapshot ''B'' (1/4) (3/4) 0 2000000)"
  by (simp add: eval_run spread_consistent_def num_of_def num_eq_def)

section \<open>The ranked query\<close>

text \<open>
  C2, as the code has it. For every store and every \<open>n\<close>, \<^verbatim>\<open>get_top_mispricing\<close> returns
  entries of the store and does not raise; for \<open>n \<ge> 0\<close> it returns
  \<open>min n (size of the store)\<close> of them, so all of them, fewer than \<open>n\<close>, when the store
  holds fewer than \<open>n\<close>. When no stored spread is \<^verbatim>\<open>nan\<close>, the result is sorted by
  non-increasing spread; the source keeps no \<^verbatim>\<open>last_updated\<close>, and entries of equal
  spread come in the order the store holds them (insertion order), the result holding
  the first of them. A \<^verbatim>\<open>nan\<close> spread can be stored (prices \<^verbatim>\<open>1e400\<close> and \<^verbatim>\<open>1e400\<close>),
  and \<^verbatim>\<open>sorted\<close> then promises no order.
\<close>

theorem top_by_spread_sorted_store_order:
  "(nan_free st \<longrightarrow>
      sorted_wrt (\<lambda>a b. num_le (spread b) (spread a)) (get_top_mispricing st n)
      \<and> (\<forall>x. prefix (filter (\<lambda>s. spread s = x) (get_top_mispricing st n))
                     (filter (\<lambda>s. spread s = x) (map snd st))))
   \<and> set (get_top_mispricing st n) \<subseteq> snd ` set st
   \<and> (0 \<le> n \<longrightarrow> length (get_top_mispricing st n) = min (nat n) (length st))
   \<and> (int (length st) < n \<longrightarrow> length (get_top_mispricing st n) = length st)
   \<and> length (get_top_mispricing st n) \<le> length st"
proof -
  obtain j where top: "get_top_mispricing st n = take j (sorted_reverse spread (map snd st))"
    using get_top_mispricing_take by blast
  have "sorted_wrt (\<lambda>a b. num_le (spread b) (spread a)) (get_top_mispricing st n)"
    if "nan_free st"
  proof -
    from that have "\<forall>s\<in>set (map snd st). spread s \<noteq> NaN"
      by (auto simp: nan_free_def)
    then have "sorted_wrt (\<lambda>a b. num_le (spread b) (spread a))
                 (sorted_reverse spread (map snd st))"
      by (rule sorted_reverse_descending)
    then show ?thesis
      unfolding top by (rule sorted_wrt_take)
  qed
  moreover have "prefix (filter (\<lambda>s. spread s = x) (get_top_mispricing st n))
                  (filter (\<lambda>s. spread s = x) (map snd st))" for x
  proof -
    have "prefix (filter (\<lambda>s. spread s = x) (take j (sorted_reverse spread (map snd st))))
            (filter (\<lambda>s. spread s = x) (sorted_reverse spread (map snd st)))"
      by (rule filter_mono_prefix) (rule take_is_prefix)
    then show ?thesis
      by (simp only: top sorted_reverse_stable)
  qed
  moreover have "set (get_top_mispricing st n) \<subseteq> snd ` set st"
    unfolding top using set_take_subset [of j "sorted_reverse spread (map snd st)"]
    by (simp add: set_sorted_reverse)
  moreover have "0 \<le> n \<longrightarrow> length (get_top_mispricing st n) = min (nat n) (length st)"
    by (simp add: get_top_mispricing_def slice_to_def length_sorted_reverse min.commute)
  moreover have "int (length st) < n \<longrightarrow> length (get_top_mispricing st n) = length st"
    by (simp add: get_top_mispricing_def slice_to_def length_sorted_reverse)
  moreover have "length (get_top_mispricing st n) \<le> length st"
    by (simp add: top length_sorted_reverse)
  ultimately show ?thesis by blast
qed

theorem top_by_spread_sorted_store_order_witness:
  "nan_free [(KStr ''A'', sample_snapshot ''A'' (7/8) (1/8) (3/4) 2000000),
             (KStr ''B'', sample_snapshot ''B'' (1/2) (1/2) 0 2000000),
             (KStr ''C'', sample_snapshot ''C'' (3/4) (1/4) (1/2) 2000000)]
   \<and> (0::int) \<le> 5
   \<and> int (length [(KStr ''A'', sample_snapshot ''A'' (7/8) (1/8) (3/4) 2000000),
                   (KStr ''B'', sample_snapshot ''B'' (1/2) (1/2) 0 2000000),
                   (KStr ''C'', sample_snapshot ''C'' (3/4) (1/4) (1/2) 2000000)]) < 5
   \<and> sorted_wrt (\<lambda>a b. num_le (spread b) (spread a))
        (get_top_mispricing
           [(KStr ''A'', sample_snapshot ''A'' (7/8) (1/8) (3/4) 2000000),
            (KStr ''B'', sample_snapshot ''B'' (1/2) (1/2) 0 2000000),
            (KStr ''C'', sample_snapshot ''C'' (3/4) (1/4) (1/2) 2000000)] 5)
   \<and> length (get_top_mispricing
           [(KStr ''A'', sample_snapshot ''A'' (7/8) (1/8) (3/4) 2000000),
            (KStr ''B'', sample_snapshot ''B'' (1/2) (1/2) 0 2000000),
            (KStr ''C'', sample_snapshot ''C'' (3/4) (1/4) (1/2) 2000000)] 5) = 3
   \<and> get_top_mispricing
           [(KStr ''A'', sample_snapshot ''A'' (7/8) (1/8) (3/4) 2000000),
            (KStr ''B'', sample_snapshot ''B'' (1/2) (1/2) 0 2000000),
            (KStr ''C'', sample_snapshot ''C'' (3/4) (1/4) (1/2) 2000000)] 2
       = [sample_snapshot ''A'' (7/8) (1/8) (3/4) 2000000,
          sample_snapshot ''C'' (3/4) (1/4) (1/2) 2000000]"
proof -
  let ?st = "[(KStr ''A'', sample_snapshot ''A'' (7/8) (1/8) (3/4) 2000000),
              (KStr ''B'', sample_snapshot ''B'' (1/2) (1/2) 0 2000000),
              (KStr ''C'', sample_snapshot ''C'' (3/4) (1/4) (1/2) 2000000)]"
  have numbers: "nan_free ?st"
    by (simp add: nan_free_def sample_snapshot_sel)
  have bound: "(0::int) \<le> 5" and fewer: "int (length ?st) < 5"
    by simp_all
  have top2: "get_top_mispricing ?st 2
       = [sample_snapshot ''A'' (7/8) (1/8) (3/4) 2000000,
          sample_snapshot ''C'' (3/4) (1/4) (1/2) 2000000]"
    by (simp add: get_top_mispricing_def slice_to_def sorted_reverse_def sample_snapshot_sel)
  from top_by_spread_sorted_store_order [of ?st 5] numbers bound fewer top2 show ?thesis
    by simp
qed

text \<open>
  The claim as stated fails on the order of ties. \<open>A\<close> and \<open>B\<close> are ingested with equal
  spread, then a stream update writes \<open>B\<close>: \<open>B\<close> is the entry updated last, its spread
  still equals that of \<open>A\<close>, and the query returns \<open>A\<close> before \<open>B\<close>.
\<close>

theorem ties_newer_first_counterexample:
  "get_top_mispricing
     (run [Fetch (discovery_response [discovery_record ''A'' (1/2) (1/2) 2000000,
                                      discovery_record ''B'' (1/2) (1/2) 2000000]),
           Message (orderbook_update ''B'' (3/4) (3/4))]) 2
     = [sample_snapshot ''A'' (1/2) (1/2) 0 2000000,
        sample_snapshot ''B'' (3/4) (3/4) 0 2000000]
   \<and> spread (sample_snapshot ''A'' (1/2) (1/2) 0 2000000)
       = spread (sample_snapshot ''B'' (3/4) (3/4) 0 2000000)
   \<and> last_updated
        [Fetch (discovery_response [discovery_record ''A'' (1/2) (1/2) 2000000,
                                    discovery_record ''B'' (1/2) (1/2) 2000000]),
         Message (orderbook_update ''B'' (3/4) (3/4))] (KStr ''A'')
     < last_updated
        [Fetch (discovery_response [discovery_record ''A'' (1/2) (1/2) 2000000,
                                    discovery_record ''B'' (1/2) (1/2) 2000000]),
         Message (orderbook_update ''B'' (3/4) (3/4))] (KStr ''B'')"
proof -
  let ?evs = "[Fetch (discovery_response [discovery_record ''A'' (1/2) (1/2) 2000000,
                                          discovery_record ''B'' (1/2) (1/2) 2000000]),
               Message (orderbook_update ''B'' (3/4) (3/4))]"
  have first: "step [] (hd ?evs) = [(KStr ''A'', sample_snapshot ''A'' (1/2) (1/2) 0 2000000),
                       (KStr ''B'', sample_snapshot ''B'' (1/2) (1/2) 0 2000000)]"
    by (simp add: eval_run)
  have second: "step [(KStr ''A'', sample_snapshot ''A'' (1/2) (1/2) 0 2000000),
                       (KStr ''B'', sample_snapshot ''B'' (1/2) (1/2) 0 2000000)]
                  (Message (orderbook_update ''B'' (3/4) (3/4)))
                = [(KStr ''A'', sample_snapshot ''A'' (1/2) (1/2) 0 2000000),
                   (KStr ''B'', sample_snapshot ''B'' (3/4) (3/4) 0 2000000)]"
    by (simp add: eval_run)
  have final: "run ?evs = [(KStr ''A'', sample_snapshot ''A'' (1/2) (1/2) 0 2000000),
                   (KStr ''B'', sample_snapshot ''B'' (3/4) (3/4) 0 2000000)]"
    using first second by (simp add: run_def)
  have top: "get_top_mispricing (run ?evs) 2
     = [sample_snapshot ''A'' (1/2) (1/2) 0 2000000,
        sample_snapshot ''B'' (3/4) (3/4) 0 2000000]"
    by (simp add: final get_top_mispricing_def slice_to_def sorted_reverse_def
          sample_snapshot_sel)
  have stamp_a: "last_updated ?evs (KStr ''A'') = 1"
    using first second by (simp add: last_updated_def sample_snapshot_eq)
  have stamp_b: "last_updated ?evs (KStr ''B'') = 2"
    using first second by (simp add: last_updated_def sample_snapshot_eq)
  from top stamp_a stamp_b show ?thesis
    by (simp add: sample_snapshot_sel)
qed

section \<open>Records with fewer than two outcomes\<close>




section \<open>Prices and spreads of stored entries\<close>

text \<open>
  C4, as the code has it. In every store a run of the feed can reach, the spread of every
  entry is non-negative or \<^verbatim>\<open>nan\<close>: it is the result of \<^verbatim>\<open>abs\<close>, and the handler of
  the stream never writes it. Neither method checks a price against the range from 0 to
  1: the prices are stored as they are received. So the entries have prices in that
  range, and then a spread that is a number and not negative, provided every record of
  every discovery response and every message of the run carries prices in that range.
\<close>

theorem spread_nonneg_or_nan_prices_as_received:
  "(\<forall>(k, s)\<in>set (run evs). spread s = NaN \<or> num_le (Num 0) (spread s))
   \<and> ((\<forall>ev\<in>set evs. prices_in_range ev) \<longrightarrow>
        (\<forall>(k, s)\<in>set (run evs). in_unit (yes_price s) \<and> in_unit (no_price s)
            \<and> num_le (Num 0) (spread s)))"
proof (intro conjI impI)
  show "\<forall>(k, s)\<in>set (run evs). spread s = NaN \<or> num_le (Num 0) (spread s)"
    by (rule run_invariant) (simp_all add: spread_nonneg_step)
next
  assume received: "\<forall>ev\<in>set evs. prices_in_range ev"
  show "\<forall>(k, s)\<in>set (run evs). in_unit (yes_price s) \<and> in_unit (no_price s)
          \<and> num_le (Num 0) (spread s)"
  proof (rule run_invariant)
    show "\<forall>(k, s)\<in>set []. in_unit (yes_price s) \<and> in_unit (no_price s)
            \<and> num_le (Num 0) (spread s)"
      by simp
  next
    fix st :: store and ev
    assume "ev \<in> set evs"
      and "\<forall>(k, s)\<in>set st. in_unit (yes_price s) \<and> in_unit (no_price s)
             \<and> num_le (Num 0) (spread s)"
    with received
    show "\<forall>(k, s)\<in>set (step st ev). in_unit (yes_price s) \<and> in_unit (no_price s)
            \<and> num_le (Num 0) (spread s)"
      by (intro prices_in_range_step) blast+
  qed
qed

theorem spread_nonneg_or_nan_prices_as_received_witness:
  "list_all prices_in_range
     [Fetch (discovery_response [discovery_record ''A'' (1/2) (1/2) 2000000]),
      Message (orderbook_update ''A'' (1/4) (3/4))]
   \<and> list_all (\<lambda>(k, s). num_le (Num 0) (spread s)
                  \<and> in_unit (yes_price s) \<and> in_unit (no_price s))
     (run [Fetch (discovery_response [discovery_record ''A'' (1/2) (1/2) 2000000]),
           Message (orderbook_update ''A'' (1/4) (3/4))])
   \<and> run [Fetch (discovery_response [discovery_record ''A'' (1/2) (1/2) 2000000]),
          Message (orderbook_update ''A'' (1/4) (3/4))]
       = [(KStr ''A'', sample_snapshot ''A'' (1/4) (3/4) 0 2000000)]"
proof -
  have received: "list_all prices_in_range
     [Fetch (discovery_response [discovery_record ''A'' (1/2) (1/2) 2000000]),
      Message (orderbook_update ''A'' (1/4) (3/4))]"
    by (simp add: prices_in_range_record prices_in_range_update)
  have reached: "run [Fetch (discovery_response [discovery_record ''A'' (1/2) (1/2) 2000000]),
          Message (orderbook_update ''A'' (1/4) (3/4))]
       = [(KStr ''A'', sample_snapshot ''A'' (1/4) (3/4) 0 2000000)]"
    by (simp add: eval_run)
  from received spread_nonneg_or_nan_prices_as_received
    [of "[Fetch (discovery_response [discovery_record ''A'' (1/2) (1/2) 2000000]),
          Message (orderbook_update ''A'' (1/4) (3/4))]"]
  have "list_all (\<lambda>(k, s). num_le (Num 0) (spread s)
                  \<and> in_unit (yes_price s) \<and> in_unit (no_price s))
     (run [Fetch (discovery_response [discovery_record ''A'' (1/2) (1/2) 2000000]),
           Message (orderbook_update ''A'' (1/4) (3/4))])"
    by (simp only: list_all_iff) blast
  with received reached show ?thesis by (intro conjI)
qed

text \<open>
  The claim as stated fails twice. A discovery record that carries the prices 2 and 0 is
  ingested as it is, and the store then holds a price outside the range. A record that
  carries the price \<^verbatim>\<open>1e400\<close> twice is ingested with the prices \<^verbatim>\<open>inf\<close> and \<^verbatim>\<open>inf\<close>,
  and its spread \<^verbatim>\<open>abs(inf - inf)\<close> is \<^verbatim>\<open>nan\<close>, which is not non-negative.
\<close>

theorem prices_in_unit_counterexample:
  "run [Fetch (discovery_response [discovery_record ''A'' 2 0 2000000])] =
     [(KStr ''A'', sample_snapshot ''A'' 2 0 2 2000000)]
   \<and> \<not> in_unit (yes_price (sample_snapshot ''A'' 2 0 2 2000000))
   \<and> run [Fetch (discovery_response
        [JObj [(''id'', JStr ''B''),
               (''outcomes'', JArr [JObj [(''price'', JNum PosInf)],
                                    JObj [(''price'', JNum PosInf)]]),
               (''volume24h'', JNum (Num 2000000)),
               (''category'', JStr ''politics'')]])] =
     [(KStr ''B'', \<lparr>market_id = JStr ''B'', yes_price = JNum PosInf, no_price = JNum PosInf,
                     spread = NaN, volume_usd = JNum (Num 2000000),
                     category = JStr ''politics''\<rparr>)]
   \<and> \<not> num_le (Num 0) NaN"
proof -
  let ?b = "JObj [(''id'', JStr ''B''),
               (''outcomes'', JArr [JObj [(''price'', JNum PosInf)],
                                    JObj [(''price'', JNum PosInf)]]),
               (''volume24h'', JNum (Num 2000000)),
               (''category'', JStr ''politics'')]"
  have passes: "volume_filter ?b = Inr True"
    by (simp add: volume_filter_def dict_get_def and_then_def py_gt_def num_of_def)
  have made: "make_snapshot ?b =
      Inr \<lparr>market_id = JStr ''B'', yes_price = JNum PosInf, no_price = JNum PosInf,
           spread = NaN, volume_usd = JNum (Num 2000000), category = JStr ''politics''\<rparr>"
    by (simp add: make_snapshot_def getitem_str_def getitem_idx_def and_then_def
          py_abs_diff_def num_of_def)
  show ?thesis
    by (simp add: eval_run in_unit_JNum passes made num_le_def num_eq_def)
qed

section \<open>Stream updates for unknown markets\<close>

text \<open>
  C5. A stream update whose \<^verbatim>\<open>market_id\<close> is not a key of the store leaves the store
  as it was: nothing is inserted, the size is the same and no entry is modified.
\<close>

theorem update_unknown_id_unchanged:
  assumes "and_then (getitem_str data ''market_id'') key_of = Inr k"
    and "k \<notin> fst ` set st"
  shows "fst (on_message st data) = st"
proof (cases rule: on_message_cases [where st = st and data = data])
  case (unchanged err)
  then show ?thesis by simp
next
  case (yes_only k' yes err)
  with assms show ?thesis by simp
next
  case (both k' yes no err)
  with assms show ?thesis by simp
qed

theorem update_unknown_id_unchanged_witness:
  "and_then (getitem_str (orderbook_update ''Z'' (1/4) (3/4)) ''market_id'') key_of = Inr (KStr ''Z'')
   \<and> KStr ''Z'' \<notin> fst ` set [(KStr ''A'', sample_snapshot ''A'' (1/2) (1/2) 0 2000000)]
   \<and> fst (on_message [(KStr ''A'', sample_snapshot ''A'' (1/2) (1/2) 0 2000000)] (orderbook_update ''Z'' (1/4) (3/4)))
       = [(KStr ''A'', sample_snapshot ''A'' (1/2) (1/2) 0 2000000)]"
proof -
  have target: "and_then (getitem_str (orderbook_update ''Z'' (1/4) (3/4)) ''market_id'') key_of = Inr (KStr ''Z'')"
    by simp
  have absent: "KStr ''Z'' \<notin> fst ` set [(KStr ''A'', sample_snapshot ''A'' (1/2) (1/2) 0 2000000)]"
    by simp
  from update_unknown_id_unchanged [OF target absent] target absent show ?thesis
    by simp
qed

section \<open>Stream updates for known markets\<close>

text \<open>
  C6. A stream update whose \<^verbatim>\<open>market_id\<close> is a key of the store leaves the keys and their
  order as they were, leaves every entry under another key as it was, and leaves the
  \<^verbatim>\<open>market_id\<close>, \<^verbatim>\<open>volume_usd\<close> and \<^verbatim>\<open>category\<close> of the entry under that key as they
  were: only the prices of that entry can change.
\<close>

theorem update_known_id_frame:
  assumes "and_then (getitem_str data ''market_id'') key_of = Inr k"
    and "k \<in> fst ` set st"
  shows "list_all2
           (\<lambda>(k1, s) (k2, s'). k2 = k1
              \<and> market_id s' = market_id s
              \<and> volume_usd s' = volume_usd s
              \<and> category s' = category s
              \<and> (k1 \<noteq> k \<longrightarrow> s' = s))
           st (fst (on_message st data))"
proof -
  obtain g where shape: "fst (on_message st data) =
       map (\<lambda>(k, s). (k, if and_then (getitem_str data ''market_id'') key_of = Inr k
                           then g s else s)) st"
    and g: "\<And>s. \<exists>y n. g s = s\<lparr>yes_price := y, no_price := n\<rparr>
            \<and> (y = yes_price s \<or> getitem_str data ''yes_bid'' = Inr y)
            \<and> (n = no_price s \<or> getitem_str data ''no_ask'' = Inr n)"
    by (rule on_message_shape [where st = st and data = data]) blast
  have fields: "market_id (g s) = market_id s \<and> volume_usd (g s) = volume_usd s
                  \<and> category (g s) = category s" for s
    using g [of s] by auto
  show ?thesis
    unfolding shape using assms(1) fields
    by (auto simp: list_all2_map2 list_all2_same)
qed

theorem update_known_id_frame_witness:
  "and_then (getitem_str (orderbook_update ''B'' (1/4) (3/4)) ''market_id'') key_of
     = Inr (KStr ''B'')
   \<and> KStr ''B'' \<in> fst ` set [(KStr ''A'', sample_snapshot ''A'' (1/2) (1/2) 0 2000000),
                              (KStr ''B'', sample_snapshot ''B'' (1/2) (1/2) 0 3000000)]
   \<and> list_all2
           (\<lambda>(k1, s) (k2, s'). k2 = k1
              \<and> market_id s' = market_id s
              \<and> volume_usd s' = volume_usd s
              \<and> category s' = category s
              \<and> (k1 \<noteq> KStr ''B'' \<longrightarrow> s' = s))
           [(KStr ''A'', sample_snapshot ''A'' (1/2) (1/2) 0 2000000),
            (KStr ''B'', sample_snapshot ''B'' (1/2) (1/2) 0 3000000)]
           (fst (on_message
              [(KStr ''A'', sample_snapshot ''A'' (1/2) (1/2) 0 2000000),
               (KStr ''B'', sample_snapshot ''B'' (1/2) (1/2) 0 3000000)]
              (orderbook_update ''B'' (1/4) (3/4))))
   \<and> fst (on_message
              [(KStr ''A'', sample_snapshot ''A'' (1/2) (1/2) 0 2000000),
               (KStr ''B'', sample_snapshot ''B'' (1/2) (1/2) 0 3000000)]
              (orderbook_update ''B'' (1/4) (3/4)))
       = [(KStr ''A'', sample_snapshot ''A'' (1/2) (1/2) 0 2000000),
          (KStr ''B'', sample_snapshot ''B'' (1/4) (3/4) 0 3000000)]"
proof -
  have target: "and_then (getitem_str (orderbook_update ''B'' (1/4) (3/4)) ''market_id'') key_of
     = Inr (KStr ''B'')"
    by simp
  have present: "KStr ''B'' \<in> fst ` set [(KStr ''A'', sample_snapshot ''A'' (1/2) (1/2) 0 2000000),
                              (KStr ''B'', sample_snapshot ''B'' (1/2) (1/2) 0 3000000)]"
    by simp
  have result: "fst (on_message
              [(KStr ''A'', sample_snapshot ''A'' (1/2) (1/2) 0 2000000),
               (KStr ''B'', sample_snapshot ''B'' (1/2) (1/2) 0 3000000)]
              (orderbook_update ''B'' (1/4) (3/4)))
       = [(KStr ''A'', sample_snapshot ''A'' (1/2) (1/2) 0 2000000),
          (KStr ''B'', sample_snapshot ''B'' (1/4) (3/4) 0 3000000)]"
    by (simp add: eval_run)
  from update_known_id_frame [OF target present] target present result show ?thesis
    by (intro conjI)
qed

section \<open>Ingesting a snapshot batch twice\<close>

text \<open>
  C7. Ingesting the same discovery response twice in a row returns what the first call
  returned and leaves the store the first call left.
\<close>

theorem fetch_idempotent:
  "fetch_politics_markets (snd (fetch_politics_markets st data)) data =
     fetch_politics_markets st data"
proof (cases rule: fetch_cases [where st = st and data = data])
  case (raised e)
  then show ?thesis by simp
next
  case (returned v recs markets d)
  from keyed_distinct [OF returned(4)] have "distinct (map fst d)" by simp
  then have idem: "dict_update (dict_update st d) d = dict_update st d"
    by (rule dict_update_idem)
  from returned(1-4) have "fetch_politics_markets (dict_update st d) data =
      (Inr markets, dict_update (dict_update st d) d)"
    by (simp add: fetch_politics_markets_def and_then_def)
  with returned(5) idem show ?thesis by simp
qed

section \<open>The volume filter\<close>

text \<open>
  C8. Every market the snapshot fetch returns has a \<^verbatim>\<open>volume_usd\<close> strictly above
  1,000,000, and so has every entry that the fetch leaves in the store and that was not
  there before; a record whose volume is not above the threshold is left out.
\<close>

theorem fetched_above_threshold:
  assumes "fetch_politics_markets st data = (Inr markets, st')"
  shows "(\<forall>s\<in>set markets. above_threshold s)
       \<and> (\<forall>(k, s)\<in>set st'. (k, s) \<in> set st \<or> above_threshold s)
       \<and> (\<forall>m pre post acc. volume_filter m = Inr False \<longrightarrow>
             collect (pre @ m # post) acc = collect (pre @ post) acc)"
proof (intro conjI)
  have above: "above_threshold s" if "s \<in> set markets" for s
  proof -
    from fetch_returned_sound [OF assms that] obtain m where
        m: "volume_filter m = Inr True" "make_snapshot m = Inr s"
      by blast
    from make_snapshot_fields(3) [OF m(2)] obtain kvs where
        kvs: "m = JObj kvs" "map_of kvs ''volume24h'' = Some (volume_usd s)"
      by (auto simp: getitem_str_def split: json.splits option.splits)
    with m(1) show ?thesis
      by (auto simp: volume_filter_def dict_get_def and_then_def py_gt_def above_threshold_def
            split: option.splits)
  qed
  then show "\<forall>s\<in>set markets. above_threshold s" by blast
  show "\<forall>(k, s)\<in>set st'. (k, s) \<in> set st \<or> above_threshold s"
    using fetch_store_sound [OF assms] above by blast
  show "\<forall>m pre post acc. volume_filter m = Inr False \<longrightarrow>
             collect (pre @ m # post) acc = collect (pre @ post) acc"
  proof (intro allI impI)
    fix m pre post acc
    assume "volume_filter m = Inr False"
    then show "collect (pre @ m # post) acc = collect (pre @ post) acc"
      by (rule collect_skip)
  qed
qed

theorem fetched_above_threshold_witness:
  "fetch_politics_markets []
     (discovery_response [discovery_record ''A'' (1/2) (1/2) 2000000,
                          discovery_record ''D'' 1 0 1000000])
     = (Inr [sample_snapshot ''A'' (1/2) (1/2) 0 2000000],
        [(KStr ''A'', sample_snapshot ''A'' (1/2) (1/2) 0 2000000)])
   \<and> list_all above_threshold [sample_snapshot ''A'' (1/2) (1/2) 0 2000000]
   \<and> volume_filter (discovery_record ''D'' 1 0 1000000) = Inr False
   \<and> collect ([discovery_record ''A'' (1/2) (1/2) 2000000] @ discovery_record ''D'' 1 0 1000000 # []) []
       = collect ([discovery_record ''A'' (1/2) (1/2) 2000000] @ []) []"
proof -
  have fetched: "fetch_politics_markets []
     (discovery_response [discovery_record ''A'' (1/2) (1/2) 2000000,
                          discovery_record ''D'' 1 0 1000000])
     = (Inr [sample_snapshot ''A'' (1/2) (1/2) 0 2000000],
        [(KStr ''A'', sample_snapshot ''A'' (1/2) (1/2) 0 2000000)])"
    by (simp add: eval_run)
  have below: "volume_filter (discovery_record ''D'' 1 0 1000000) = Inr False"
    by simp
  from fetched_above_threshold [OF fetched] below
  have "(\<forall>s\<in>set [sample_snapshot ''A'' (1/2) (1/2) 0 2000000]. above_threshold s)
      \<and> collect ([discovery_record ''A'' (1/2) (1/2) 2000000] @ discovery_record ''D'' 1 0 1000000 # []) []
       = collect ([discovery_record ''A'' (1/2) (1/2) 2000000] @ []) []"
    by blast
  with fetched below show ?thesis
    by (simp only: list_all_iff) blast
qed

section \<open>Keys and the ids of the entries\<close>

text \<open>
  C9. In every store a run of the feed can reach, every key maps to an entry whose
  \<^verbatim>\<open>market_id\<close> is that key; snapshot ingestion, which stores each entry under its own
  \<^verbatim>\<open>market_id\<close>, and the message handler, which never writes the field, both preserve
  this.
\<close>

theorem key_coherence:
  "coherent (run evs)
   \<and> (coherent st \<longrightarrow> coherent (snd (fetch_politics_markets st data))
                      \<and> coherent (fst (on_message st msg)))"
proof (intro conjI impI)
  show "coherent (run evs)"
    by (rule run_invariant) (simp_all add: coherent_step, simp add: coherent_def)
next
  assume "coherent st"
  from coherent_step [OF this, of "Fetch data"]
  show "coherent (snd (fetch_politics_markets st data))" by (simp add: step_def)
  from coherent_step [OF \<open>coherent st\<close>, of "Message msg"]
  show "coherent (fst (on_message st msg))" by (simp add: step_def)
qed

theorem key_coherence_witness:
  "coherent [(KStr ''A'', sample_snapshot ''A'' (1/2) (1/2) 0 2000000)]
   \<and> coherent (run [Fetch (discovery_response [discovery_record ''A'' (1/2) (1/2) 2000000]),
                     Message (orderbook_update ''A'' (1/4) (3/4))])
   \<and> coherent (snd (fetch_politics_markets
         [(KStr ''A'', sample_snapshot ''A'' (1/2) (1/2) 0 2000000)]
         (discovery_response [discovery_record ''B'' (1/2) (1/2) 2000000])))
   \<and> coherent (fst (on_message
         [(KStr ''A'', sample_snapshot ''A'' (1/2) (1/2) 0 2000000)]
         (orderbook_update ''A'' (1/4) (3/4))))"
proof -
  have "coherent [(KStr ''A'', sample_snapshot ''A'' (1/2) (1/2) 0 2000000)]"
    by (simp add: coherent_def)
  with key_coherence
    [of "[Fetch (discovery_response [discovery_record ''A'' (1/2) (1/2) 2000000]),
          Message (orderbook_update ''A'' (1/4) (3/4))]"
        "[(KStr ''A'', sample_snapshot ''A'' (1/2) (1/2) 0 2000000)]"
        "discovery_response [discovery_record ''B'' (1/2) (1/2) 2000000]"
        "orderbook_update ''A'' (1/4) (3/4)"]
  show ?thesis by blast
qed

section \<open>Records without a volume\<close>

text \<open>
  C10. A discovery record that has no \<^verbatim>\<open>volume24h\<close> field is read as having volume 0: it
  does not pass the volume test, and the fetch returns and stores what it would without
  the record.
\<close>

theorem record_without_volume_skipped:
  assumes "map_of kvs ''volume24h'' = None"
  shows "dict_get (JObj kvs) ''volume24h'' (JNum (Num 0)) = Inr (JNum (Num 0))
       \<and> volume_filter (JObj kvs) = Inr False
       \<and> fetch_politics_markets st (discovery_response (pre @ JObj kvs # post)) =
           fetch_politics_markets st (discovery_response (pre @ post))"
proof -
  from assms have dflt: "dict_get (JObj kvs) ''volume24h'' (JNum (Num 0)) = Inr (JNum (Num 0))"
    by (simp add: dict_get_def)
  then have skip: "volume_filter (JObj kvs) = Inr False"
    by (simp add: volume_filter_def and_then_def py_gt_def num_of_def)
  from collect_skip [OF skip] have "collect (pre @ JObj kvs # post) [] = collect (pre @ post) []" .
  with dflt skip show ?thesis
    by (simp add: fetch_response)
qed

theorem record_without_volume_skipped_witness:
  "map_of [(''id'', JStr ''N''),
           (''outcomes'', JArr [JObj [(''price'', JNum (Num 1))], JObj [(''price'', JNum (Num 0))]]),
           (''category'', JStr ''politics'')] ''volume24h'' = None
   \<and> volume_filter (JObj [(''id'', JStr ''N''),
           (''outcomes'', JArr [JObj [(''price'', JNum (Num 1))], JObj [(''price'', JNum (Num 0))]]),
           (''category'', JStr ''politics'')]) = Inr False
   \<and> fetch_politics_markets []
        (discovery_response ([discovery_record ''A'' (1/2) (1/2) 2000000]
           @ JObj [(''id'', JStr ''N''),
                   (''outcomes'', JArr [JObj [(''price'', JNum (Num 1))], JObj [(''price'', JNum (Num 0))]]),
                   (''category'', JStr ''politics'')] # []))
       = (Inr [sample_snapshot ''A'' (1/2) (1/2) 0 2000000],
          [(KStr ''A'', sample_snapshot ''A'' (1/2) (1/2) 0 2000000)])"
proof -
  have absent: "map_of [(''id'', JStr ''N''),
           (''outcomes'', JArr [JObj [(''price'', JNum (Num 1))], JObj [(''price'', JNum (Num 0))]]),
           (''category'', JStr ''politics'')] ''volume24h'' = None"
    by simp
  have "fetch_politics_markets []
          (discovery_response ([discovery_record ''A'' (1/2) (1/2) 2000000] @ []))
       = (Inr [sample_snapshot ''A'' (1/2) (1/2) 0 2000000],
          [(KStr ''A'', sample_snapshot ''A'' (1/2) (1/2) 0 2000000)])"
    by (simp add: eval_run)
  with record_without_volume_skipped [OF absent, of "[]" "[discovery_record ''A'' (1/2) (1/2) 2000000]" "[]"]
    absent
  show ?thesis by simp
qed

end
